theory Spec2Isabelle
  imports Complex_Main
begin

section \<open>Errors\<close>

text \<open>
  The only exception the modelled code can raise is a \<open>ValueError\<close> coming out of the
  numerical and the layer library; it carries its message.
\<close>

datatype error = ValueError string

section \<open>The alphabet and its integer codes\<close>

text \<open>
  \<^verbatim>\<open>amino_acids = 'ACDEFGHIKLMNPQRSTVWY'\<close>

  \<^verbatim>\<open>aa_to_int = {aa: i + 1 for i, aa in enumerate(amino_acids)}\<close>

  A character of the model stands for one character of the Python string. The dictionary
  comprehension stores the pairs in the order of the enumeration, a later pair replacing
  an earlier one with the same key.
\<close>

definition amino_acids :: string where
  "amino_acids = ''ACDEFGHIKLMNPQRSTVWY''"

definition aa_to_int :: "char \<rightharpoonup> int" where
  "aa_to_int = fold (\<lambda>(i, aa) m. m(aa \<mapsto> int i + 1)) (enumerate 0 amino_acids) Map.empty"

section \<open>Padding\<close>

text \<open>
  \<open>pad_sequences\<close> is a function of the Keras library, called as
  \<^verbatim>\<open>pad_sequences([encoded], maxlen=max_len, padding='post')\<close>. Its signature is
  \<^verbatim>\<open>pad_sequences(sequences, maxlen=None, dtype='int32', padding='pre', truncating='pre', value=0.0)\<close>,
  so the call leaves \<open>truncating\<close> at its default \<open>'pre'\<close>: a sequence longer than
  \<open>maxlen\<close> loses values at its beginning. The library's body, for a given \<open>maxlen\<close>:

  \<^verbatim>\<open>
  x = np.full((num_samples, maxlen), value, dtype=dtype)
  for idx, s in enumerate(sequences):
      if not len(s):
          continue
      if truncating == 'pre':
          trunc = s[-maxlen:]
      elif truncating == 'post':
          trunc = s[:maxlen]
      trunc = np.asarray(trunc, dtype=dtype)
      if padding == 'post':
          x[idx, :len(trunc)] = trunc
      elif padding == 'pre':
          x[idx, -len(trunc):] = trunc
  return x
  \<close>

  The entries are integers; every entry the encoder passes lies in \<open>[1, 20]\<close>, far inside
  the range of \<open>int32\<close>. \<open>np.full\<close> raises \<open>ValueError\<close> on a negative dimension, and
  an assignment to a slice raises \<open>ValueError\<close> when the source cannot be broadcast to
  the slice (equal lengths, or a source of length 1).
\<close>

datatype pad_mode = Pre | Post

definition slice_last :: "int \<Rightarrow> 'a list \<Rightarrow> 'a list" where
  \<comment> \<open>\<open>s[-n:]\<close> for \<open>n \<ge> 0\<close>; \<open>s[-0:]\<close> is the whole of \<open>s\<close>.\<close>
  "slice_last n s = (if n = 0 then s else drop (length s - nat n) s)"

definition slice_first :: "int \<Rightarrow> 'a list \<Rightarrow> 'a list" where
  \<comment> \<open>\<open>s[:n]\<close> for \<open>n \<ge> 0\<close>.\<close>
  "slice_first n s = take (nat n) s"

definition assign_slice :: "nat \<Rightarrow> int list \<Rightarrow> error + int list" where
  \<comment> \<open>The new contents of a slice of length \<open>t\<close> that is assigned the array \<open>src\<close>.\<close>
  "assign_slice t src =
     (if length src = t then Inr src
      else if length src = 1 then Inr (replicate t (hd src))
      else Inl (ValueError ''could not broadcast input array''))"

definition pad_row :: "int \<Rightarrow> pad_mode \<Rightarrow> pad_mode \<Rightarrow> int list \<Rightarrow> error + int list" where
  "pad_row maxlen padding truncating s =
     (if s = [] then Inr (replicate (nat maxlen) 0)
      else
        let trunc = (case truncating of Pre \<Rightarrow> slice_last maxlen s
                                      | Post \<Rightarrow> slice_first maxlen s);
            n = length trunc;
            t = (if n = 0 then nat maxlen else min n (nat maxlen))
        in case padding of
             Post \<Rightarrow> (case assign_slice (min n (nat maxlen)) trunc of
                        Inl e \<Rightarrow> Inl e
                      | Inr v \<Rightarrow> Inr (v @ replicate (nat maxlen - min n (nat maxlen)) 0))
           | Pre \<Rightarrow> (case assign_slice t trunc of
                       Inl e \<Rightarrow> Inl e
                     | Inr v \<Rightarrow> Inr (replicate (nat maxlen - t) 0 @ v)))"

fun pad_rows :: "int \<Rightarrow> pad_mode \<Rightarrow> pad_mode \<Rightarrow> int list list \<Rightarrow> error + int list list" where
  "pad_rows maxlen padding truncating [] = Inr []"
| "pad_rows maxlen padding truncating (s # ss) =
     (case pad_row maxlen padding truncating s of
        Inl e \<Rightarrow> Inl e
      | Inr r \<Rightarrow> (case pad_rows maxlen padding truncating ss of
                   Inl e \<Rightarrow> Inl e
                 | Inr rs \<Rightarrow> Inr (r # rs)))"

definition pad_sequences ::
  "int list list \<Rightarrow> int \<Rightarrow> pad_mode \<Rightarrow> pad_mode \<Rightarrow> error + int list list" where
  "pad_sequences sequences maxlen padding truncating =
     (if maxlen < 0 then Inl (ValueError ''negative dimensions are not allowed'')
      else pad_rows maxlen padding truncating sequences)"

section \<open>The sequence encoder\<close>

text \<open>
  \<^verbatim>\<open>
  def encode_sequence(sequence, max_len=150):
      encoded = [aa_to_int.get(aa, 0) for aa in sequence if aa in aa_to_int]
      return pad_sequences([encoded], maxlen=max_len, padding='post')
  \<close>

  The result is the two-dimensional array that \<open>pad_sequences\<close> returns, a list of rows.
\<close>

definition encoded :: "string \<Rightarrow> int list" where
  "encoded sequence =
     [case aa_to_int aa of Some v \<Rightarrow> v | None \<Rightarrow> 0. aa \<leftarrow> sequence, aa_to_int aa \<noteq> None]"

definition encode_sequence :: "string \<Rightarrow> int \<Rightarrow> error + int list list" where
  "encode_sequence sequence max_len = pad_sequences [encoded sequence] max_len Post Pre"

definition filter_alphabet :: "string \<Rightarrow> string" where
  \<comment> \<open>The specification's name for the input with every character outside the alphabet removed.\<close>
  "filter_alphabet s = filter (\<lambda>c. c \<in> set amino_acids) s"

section \<open>The layer graph, at the level of tensor shapes\<close>

text \<open>
  The layers are those of the Keras library; the weights are floating point numbers and
  are not modelled. What the library decides before any number is computed is the shape
  of every tensor: a layer called on a symbolic tensor checks the rank it accepts and
  raises \<open>ValueError\<close> otherwise, and returns the shape of its output. A dimension is
  \<open>None\<close> (the batch size, unknown when the graph is built) or a number.

  \<^item> \<open>Input(shape=(n,))\<close> has shape \<open>(None, n)\<close>.
  \<^item> \<open>Embedding(input_dim, output_dim)\<close> appends \<open>output_dim\<close>.
  \<^item> \<open>Dropout\<close> and \<open>BatchNormalization\<close> keep the shape.
  \<^item> \<open>Conv1D(filters, kernel_size, padding='same')\<close> accepts rank 3,
    \<open>(batch, steps, channels)\<close>, and returns \<open>(batch, steps, filters)\<close>.
  \<^item> \<open>LSTM(units)\<close> accepts rank 3 and returns \<open>(batch, steps, units)\<close> with
    \<open>return_sequences=True\<close>, and \<open>(batch, units)\<close> with the default
    \<open>return_sequences=False\<close>.
  \<^item> \<open>Attention()([query, value])\<close> returns \<open>(batch, query steps, value dim)\<close>.
  \<^item> \<open>concatenate\<close> joins along the last axis tensors that agree on the others.
  \<^item> \<open>GlobalAveragePooling1D\<close> has input specification \<open>ndim=3\<close> and returns
    \<open>(batch, features)\<close>.
  \<^item> \<open>Dense(units)\<close> accepts rank 2 or more and replaces the last dimension.
\<close>

type_synonym shape = "nat option list"

record keras_model =
  model_inputs :: shape
  model_outputs :: shape

definition and_then :: "error + 'a \<Rightarrow> ('a \<Rightarrow> error + 'b) \<Rightarrow> error + 'b" where
  \<comment> \<open>Sequencing of statements: an exception raised by the first skips the rest.\<close>
  "and_then r f = (case r of Inl e \<Rightarrow> Inl e | Inr v \<Rightarrow> f v)"

definition Input :: "nat \<Rightarrow> shape" where
  "Input n = [None, Some n]"

definition Embedding :: "nat \<Rightarrow> nat \<Rightarrow> shape \<Rightarrow> error + shape" where
  "Embedding input_dim output_dim s = Inr (s @ [Some output_dim])"

definition Dropout :: "shape \<Rightarrow> error + shape" where
  "Dropout s = Inr s"

definition BatchNormalization :: "shape \<Rightarrow> error + shape" where
  "BatchNormalization s = Inr s"

definition Conv1D :: "nat \<Rightarrow> nat \<Rightarrow> shape \<Rightarrow> error + shape" where
  "Conv1D filters kernel_size s =
     (case s of [b, steps, channels] \<Rightarrow> Inr [b, steps, Some filters]
              | _ \<Rightarrow> Inl (ValueError ''conv1d: expected ndim=3''))"

definition LSTM :: "nat \<Rightarrow> bool \<Rightarrow> shape \<Rightarrow> error + shape" where
  "LSTM units return_sequences s =
     (case s of [b, steps, features] \<Rightarrow>
                  Inr (if return_sequences then [b, steps, Some units] else [b, Some units])
              | _ \<Rightarrow> Inl (ValueError ''lstm: expected ndim=3''))"

definition Attention :: "shape \<Rightarrow> shape \<Rightarrow> error + shape" where
  "Attention query val =
     (case (query, val) of
        ([b, tq, d], [b', tv, dv]) \<Rightarrow>
          if d = dv then Inr [b, tq, dv]
          else Inl (ValueError ''attention: incompatible dimensions'')
      | _ \<Rightarrow> Inl (ValueError ''attention: expected ndim=3''))"

definition concatenate :: "shape \<Rightarrow> shape \<Rightarrow> error + shape" where
  "concatenate a b =
     (if a \<noteq> [] \<and> b \<noteq> [] \<and> butlast a = butlast b then
        (case (last a, last b) of
           (Some m, Some n) \<Rightarrow> Inr (butlast a @ [Some (m + n)])
         | _ \<Rightarrow> Inr (butlast a @ [None]))
      else Inl (ValueError ''concatenate: inputs with matching shapes except for the concat axis''))"

definition GlobalAveragePooling1D :: "shape \<Rightarrow> error + shape" where
  "GlobalAveragePooling1D s =
     (case s of [b, steps, features] \<Rightarrow> Inr [b, features]
              | _ \<Rightarrow> Inl (ValueError ''global_average_pooling1d: expected ndim=3''))"

definition Dense :: "nat \<Rightarrow> shape \<Rightarrow> error + shape" where
  "Dense units s =
     (if 2 \<le> length s then Inr (butlast s @ [Some units])
      else Inl (ValueError ''dense: expected min_ndim=2''))"

text \<open>
  \<^verbatim>\<open>
  def build_complex_model(input_length):
      inputs = Input(shape=(input_length,))
      x = Embedding(input_dim=len(amino_acids) + 1, output_dim=128, input_length=input_length)(inputs)
      x = Dropout(0.3)(x)
      x = Conv1D(64, kernel_size=3, activation='relu', padding='same')(x)
      x = BatchNormalization()(x)
      x = Conv1D(128, kernel_size=5, activation='relu', padding='same')(x)
      x = BatchNormalization()(x)
      x = LSTM(256, return_sequences=True)(x)
      x = Dropout(0.3)(x)
      attention = Attention()([x, x])
      x = tf.keras.layers.concatenate([x, attention])
      x = LSTM(128)(x)
      x = Dropout(0.3)(x)
      x = GlobalAveragePooling1D()(x)
      x = Dense(128, activation='relu')(x)
      x = Dropout(0.4)(x)
      outputs = Dense(3, activation='linear')(x)
      model = Model(inputs, outputs)
      model.compile(optimizer='adam', loss='mse')
      return model
  \<close>
\<close>

definition build_complex_model :: "nat \<Rightarrow> error + keras_model" where
  "build_complex_model input_length =
     (let inputs = Input input_length in
      and_then (Embedding (length amino_acids + 1) 128 inputs) (\<lambda>x.
      and_then (Dropout x) (\<lambda>x.
      and_then (Conv1D 64 3 x) (\<lambda>x.
      and_then (BatchNormalization x) (\<lambda>x.
      and_then (Conv1D 128 5 x) (\<lambda>x.
      and_then (BatchNormalization x) (\<lambda>x.
      and_then (LSTM 256 True x) (\<lambda>x.
      and_then (Dropout x) (\<lambda>x.
      and_then (Attention x x) (\<lambda>attention.
      and_then (concatenate x attention) (\<lambda>x.
      and_then (LSTM 128 False x) (\<lambda>x.
      and_then (Dropout x) (\<lambda>x.
      and_then (GlobalAveragePooling1D x) (\<lambda>x.
      and_then (Dense 128 x) (\<lambda>x.
      and_then (Dropout x) (\<lambda>x.
      and_then (Dense 3 x) (\<lambda>outputs.
      Inr \<lparr>model_inputs = inputs, model_outputs = outputs\<rparr>)))))))))))))))))"

text \<open>
  \<open>model.predict(encoded_seq).reshape(-1, 3)\<close>: the array passed in must agree with the
  model's input shape on every known dimension; the result has the model's output shape
  with the batch size of the array, and is then regrouped into rows of three.
\<close>

definition predict_shape :: "keras_model \<Rightarrow> nat list \<Rightarrow> error + nat list" where
  "predict_shape model xs =
     (if length xs = length (model_inputs model) \<and> xs \<noteq> [] \<and>
         list_all2 (\<lambda>d k. case k of None \<Rightarrow> True | Some n \<Rightarrow> d = n) xs (model_inputs model)
      then Inr (map (\<lambda>k. case k of None \<Rightarrow> hd xs | Some n \<Rightarrow> n) (model_outputs model))
      else Inl (ValueError ''predict: incompatible input shape''))"

definition reshape_rows3 :: "nat list \<Rightarrow> error + nat list" where
  "reshape_rows3 s =
     (if prod_list s mod 3 = 0 then Inr [prod_list s div 3, 3]
      else Inl (ValueError ''cannot reshape array''))"

section \<open>The structure record formatter\<close>

text \<open>
  \<^verbatim>\<open>
  def visualize_3d_structure(prediction):
      view = py3Dmol.view(width=400, height=400)
      pdb_data = "MODEL\n"
      for i, (x, y, z) in enumerate(prediction):
          pdb_data += f"ATOM  {i+1:5d}  CA  ALA A{i+1:4d}    {x:8.3f}{y:8.3f}{z:8.3f}  1.00  0.00           C\n"
      pdb_data += "ENDMDL\n"
      view.addModel(pdb_data, 'pdb')
      view.setStyle({'cartoon': {'color': 'spectrum'}})
      view.zoomTo()
      return view
  \<close>

  A format specification gives a minimum width: \<open>{n:5d}\<close> writes the decimal digits of
  \<open>n\<close> (after a minus sign when \<open>n\<close> is negative) and pads them on the left with spaces
  up to five characters, and writes them all when they are more than five.
  \<open>{x:8.3f}\<close> writes \<open>x\<close> rounded to three decimals, the exact value of the float
  rounded to the nearest thousandth and a tie to the even one, padded on the left up to
  eight characters. A finite float is a rational number, and a coordinate of the model is
  the rational number the float stands for; the values \<open>nan\<close> and \<open>inf\<close>, and the sign
  of a negative zero, are outside the model.
\<close>

definition newline :: char where
  "newline = CHR 0x0A"

definition digit_char :: "nat \<Rightarrow> char" where
  "digit_char d = ''0123456789'' ! d"

fun digits :: "nat \<Rightarrow> string" where
  "digits n = (if n < 10 then [digit_char n] else digits (n div 10) @ [digit_char (n mod 10)])"

declare digits.simps [simp del]

definition rjust :: "nat \<Rightarrow> string \<Rightarrow> string" where
  "rjust w s = replicate (w - length s) CHR '' '' @ s"

definition format_d :: "nat \<Rightarrow> int \<Rightarrow> string" where
  "format_d w n = rjust w ((if n < 0 then ''-'' else []) @ digits (nat \<bar>n\<bar>))"

definition round_half_even :: "rat \<Rightarrow> int" where
  "round_half_even q =
     (let f = \<lfloor>q\<rfloor>; r = q - of_int f
      in if r < 1 / 2 then f else if 1 / 2 < r then f + 1 else if even f then f else f + 1)"

definition format_f3 :: "nat \<Rightarrow> rat \<Rightarrow> string" where
  "format_f3 w x =
     (let n = nat (round_half_even (\<bar>x\<bar> * 1000))
      in rjust w ((if x < 0 then ''-'' else []) @ digits (n div 1000) @ ''.'' @
                  [digit_char (n div 100 mod 10), digit_char (n div 10 mod 10),
                   digit_char (n mod 10)]))"

definition atom_record :: "nat \<Rightarrow> rat \<times> rat \<times> rat \<Rightarrow> string" where
  \<comment> \<open>The text of one record, without the newline that ends it.\<close>
  "atom_record i p =
     (case p of (x, y, z) \<Rightarrow>
        ''ATOM  '' @ format_d 5 (int i + 1) @ ''  CA  ALA A'' @ format_d 4 (int i + 1) @
        ''    '' @ format_f3 8 x @ format_f3 8 y @ format_f3 8 z @
        ''  1.00  0.00           C'')"

definition pdb_data :: "(rat \<times> rat \<times> rat) list \<Rightarrow> string" where
  "pdb_data prediction =
     fold (\<lambda>(i, p) acc. acc @ atom_record i p @ [newline]) (enumerate 0 prediction)
          (''MODEL'' @ [newline])
     @ ''ENDMDL'' @ [newline]"

record view =
  view_width :: nat
  view_height :: nat
  view_models :: "(string \<times> string) list"

definition visualize_3d_structure :: "(rat \<times> rat \<times> rat) list \<Rightarrow> view" where
  \<comment> \<open>The style and the zoom of the viewer do not change the text it was given.\<close>
  "visualize_3d_structure prediction =
     \<lparr>view_width = 400, view_height = 400, view_models = [(pdb_data prediction, ''pdb'')]\<rparr>"

text \<open>
  The lines of a text, each without the newline that ends it, and what it means for a
  coordinate to fit its field: its text is no wider than the eight characters of the field.
\<close>

fun text_lines :: "string \<Rightarrow> string list" where
  "text_lines [] = []"
| "text_lines (c # cs) =
     (if c = newline then [] # text_lines cs
      else (case text_lines cs of [] \<Rightarrow> [[c]] | l # ls \<Rightarrow> (c # l) # ls))"

definition fits_field :: "rat \<Rightarrow> bool" where
  "fits_field x = (length (format_f3 8 x) = 8)"

fun point_fits :: "rat \<times> rat \<times> rat \<Rightarrow> bool" where
  "point_fits (x, y, z) = (fits_field x \<and> fits_field y \<and> fits_field z)"

section \<open>The page\<close>

text \<open>
  \<^verbatim>\<open>
  sequence = st.text_input("Amino Acid Sequence (max 150 characters):", "ACDEFGHIKLMNPQRSTVWY")
  if len(sequence) > 150:
      st.error("Sequence too long. Please enter up to 150 characters.")

  if st.button("Predict and Visualize Structure"):
      if all(aa in amino_acids for aa in sequence):
          encoded_seq = encode_sequence(sequence, max_len=150)
          model = build_complex_model(input_length=150)
          predictions = model.predict(encoded_seq).reshape(-1, 3)
          ...
      else:
          st.error("Invalid characters in sequence. Please use valid amino acid symbols only.")
  \<close>

  One run of the script, for the text in the input field and the state of the button, is
  the list of what it does, in order: the error messages it shows and the steps of the
  prediction branch. An exception that nothing catches ends the run. The steps after
  \<open>predictions\<close> display floating point values and are not part of the model.
\<close>

datatype event =
    Error_shown string
  | Encoded_input "int list list"
  | Model_built keras_model
  | Predictions "nat list"
  | Uncaught error

fun array_shape :: "int list list \<Rightarrow> nat list" where
  "array_shape [] = [0, 0]"
| "array_shape (r # rs) = [Suc (length rs), length r]"

definition prediction_branch :: "string \<Rightarrow> event list" where
  "prediction_branch sequence =
     (case encode_sequence sequence 150 of
        Inl e \<Rightarrow> [Uncaught e]
      | Inr encoded_seq \<Rightarrow>
          Encoded_input encoded_seq #
          (case build_complex_model 150 of
             Inl e \<Rightarrow> [Uncaught e]
           | Inr model \<Rightarrow>
               Model_built model #
               (case and_then (predict_shape model (array_shape encoded_seq)) reshape_rows3 of
                  Inl e \<Rightarrow> [Uncaught e]
                | Inr s \<Rightarrow> [Predictions s])))"

definition run_app :: "string \<Rightarrow> bool \<Rightarrow> event list" where
  "run_app sequence button =
     (if 150 < length sequence
      then [Error_shown ''Sequence too long. Please enter up to 150 characters.'']
      else [])
     @ (if button then
          (if list_all (\<lambda>aa. aa \<in> set amino_acids) sequence
           then prediction_branch sequence
           else [Error_shown
                   ''Invalid characters in sequence. Please use valid amino acid symbols only.''])
        else [])"

fun in_prediction_branch :: "event \<Rightarrow> bool" where
  "in_prediction_branch (Error_shown m) = False"
| "in_prediction_branch e = True"

section \<open>The layout of a structure record\<close>

text \<open>
  The columns of one record line, as the specification lists them: record type, serial
  number, atom name, residue name, chain identifier, residue number, three coordinate
  fields of eight characters, the occupancy and temperature placeholders, and the element
  symbol in the last column, the 78th.
\<close>

definition has_layout :: "string \<Rightarrow> nat \<Rightarrow> rat \<times> rat \<times> rat \<Rightarrow> bool" where
  "has_layout l i p =
     (case p of (x, y, z) \<Rightarrow>
        length l = 78 \<and>
        take 6 l = ''ATOM  '' \<and>
        take 5 (drop 6 l) = format_d 5 (int i + 1) \<and>
        take 4 (drop 12 l) = '' CA '' \<and>
        take 3 (drop 17 l) = ''ALA'' \<and>
        take 1 (drop 21 l) = ''A'' \<and>
        take 4 (drop 22 l) = format_d 4 (int i + 1) \<and>
        take 8 (drop 30 l) = format_f3 8 x \<and>
        take 8 (drop 38 l) = format_f3 8 y \<and>
        take 8 (drop 46 l) = format_f3 8 z \<and>
        take 6 (drop 54 l) = ''  1.00'' \<and>
        take 6 (drop 60 l) = ''  0.00'' \<and>
        drop 66 l = ''           C'')"

section \<open>Properties of the alphabet and of the encoder\<close>

lemma upto_1_20: "[1..20] = [1,2,3,4,5,6,7,8,9,10,11,12,13,14,15,16,17,18,19,20::int]"
  by (simp add: upto.simps)

lemma aa_to_int_map: "aa_to_int = map_of (zip amino_acids [1..20])"
  by (simp add: aa_to_int_def amino_acids_def enumerate_eq_zip upto_1_20 fun_eq_iff)

lemma aa_to_int_dom: "dom aa_to_int = set amino_acids"
  unfolding aa_to_int_map by (rule dom_map_of_zip) (simp add: amino_acids_def upto_1_20)

lemma aa_to_int_range: "aa_to_int c = Some v \<Longrightarrow> 1 \<le> v \<and> v \<le> 20"
proof -
  assume "aa_to_int c = Some v"
  then have "(c, v) \<in> set (zip amino_acids [1..20])"
    unfolding aa_to_int_map by (rule map_of_SomeD)
  then have "v \<in> set [1..20]" by (rule set_zip_rightD)
  then show ?thesis by simp
qed

lemma encoded_Nil: "encoded [] = []"
  by (simp add: encoded_def)

lemma encoded_Cons:
  "encoded (c # s) = (case aa_to_int c of None \<Rightarrow> encoded s | Some v \<Rightarrow> v # encoded s)"
  by (simp add: encoded_def split: option.split)

lemma encoded_append: "encoded (s @ t) = encoded s @ encoded t"
  by (simp add: encoded_def)

lemma encoded_filter: "encoded (filter_alphabet s) = encoded s"
  by (induction s)
     (auto simp: encoded_Cons encoded_Nil filter_alphabet_def aa_to_int_dom [symmetric]
           split: option.split)

lemma length_encoded: "length (encoded s) = length (filter_alphabet s)"
  by (induction s)
     (auto simp: encoded_Cons encoded_Nil filter_alphabet_def aa_to_int_dom [symmetric]
           split: option.split)

lemma encoded_drop_alphabet:
  "set s \<subseteq> set amino_acids \<Longrightarrow> encoded (drop k s) = drop k (encoded s)"
proof (induction s arbitrary: k)
  case Nil
  then show ?case by (simp add: encoded_Nil)
next
  case (Cons c s)
  then have "c \<in> dom aa_to_int" by (simp add: aa_to_int_dom)
  then obtain v where v: "aa_to_int c = Some v" by blast
  show ?case
  proof (cases k)
    case 0
    then show ?thesis by simp
  next
    case (Suc j)
    with Cons v show ?thesis by (simp add: encoded_Cons)
  qed
qed

lemma encoded_take_alphabet:
  "set s \<subseteq> set amino_acids \<Longrightarrow> encoded (take k s) = take k (encoded s)"
proof (induction s arbitrary: k)
  case Nil
  then show ?case by (simp add: encoded_Nil)
next
  case (Cons c s)
  then have "c \<in> dom aa_to_int" by (simp add: aa_to_int_dom)
  then obtain v where v: "aa_to_int c = Some v" by blast
  show ?case
  proof (cases k)
    case 0
    then show ?thesis by (simp add: encoded_Nil)
  next
    case (Suc j)
    with Cons v show ?thesis by (simp add: encoded_Cons)
  qed
qed

lemma set_filter_alphabet: "set (filter_alphabet s) \<subseteq> set amino_acids"
  by (auto simp: filter_alphabet_def)

lemma encoded_range: "x \<in> set (encoded s) \<Longrightarrow> 1 \<le> x \<and> x \<le> 20"
  by (induction s)
     (auto simp: encoded_Cons encoded_Nil dest: aa_to_int_range split: option.splits)

lemma encoded_replicate_A: "encoded (replicate n CHR ''A'') = replicate n 1"
  by (induction n) (simp_all add: encoded_Nil encoded_Cons aa_to_int_map amino_acids_def upto_1_20)

lemma filter_alphabet_replicate_A:
  "filter_alphabet (replicate n CHR ''A'' @ ''C'') = replicate n CHR ''A'' @ ''C''"
  by (simp add: filter_alphabet_def amino_acids_def)

lemma encoded_C: "encoded ''C'' = [2]"
  by (simp add: encoded_Nil encoded_Cons aa_to_int_map amino_acids_def upto_1_20)

lemma pad_row_post_pre:
  assumes "0 < maxlen"
  shows "pad_row maxlen Post Pre s =
         Inr (drop (length s - nat maxlen) s @ replicate (nat maxlen - length s) 0)"
proof (cases "length s \<le> nat maxlen")
  case True
  with assms show ?thesis
    by (simp add: pad_row_def slice_last_def assign_slice_def Let_def min_def)
next
  case False
  then have "length s - (length s - nat maxlen) = nat maxlen" by arith
  with False assms show ?thesis
    by (auto simp: pad_row_def slice_last_def assign_slice_def Let_def min_def)
qed

lemma length_padded:
  "length (drop (length xs - m) xs @ replicate (m - length xs) (0::int)) = m"
  by simp

lemma encode_sequence_pos:
  "0 < max_len \<Longrightarrow>
   encode_sequence s max_len =
     Inr [drop (length (encoded s) - nat max_len) (encoded s)
          @ replicate (nat max_len - length (encoded s)) 0]"
  by (simp add: encode_sequence_def pad_sequences_def pad_row_post_pre)

text \<open>
  C2, as the code has it: for every input string with more than 150 alphabet characters
  after filtering, \<open>encode_sequence\<close> returns, without raising, the codes of the last 150
  alphabet characters. The truncation is on the left, the default of \<open>pad_sequences\<close>.
\<close>

theorem encode_sequence_keeps_last_150:
  "150 < length (filter_alphabet s) \<Longrightarrow>
   encode_sequence s 150 =
     Inr [encoded (drop (length (filter_alphabet s) - 150) (filter_alphabet s))]"
  by (simp add: encode_sequence_pos encoded_drop_alphabet set_filter_alphabet encoded_filter
                length_encoded)

theorem encode_sequence_keeps_last_150_witness:
  "150 < length (filter_alphabet (replicate 150 CHR ''A'' @ ''C'')) \<and>
   encode_sequence (replicate 150 CHR ''A'' @ ''C'') 150 = Inr [replicate 149 1 @ [2]]"
proof -
  have h: "150 < length (filter_alphabet (replicate 150 CHR ''A'' @ ''C''))"
    by (simp add: filter_alphabet_replicate_A)
  have "drop (Suc 0) (replicate 150 CHR ''A'') = replicate 149 CHR ''A''" by simp
  with encode_sequence_keeps_last_150 [OF h] h show ?thesis
    by (simp add: filter_alphabet_replicate_A encoded_append encoded_replicate_A encoded_C)
qed

text \<open>
  C2, as the specification states it, fails: on 150 times \<open>A\<close> followed by \<open>C\<close> the
  encoder does not return the codes of the first 150 alphabet characters.
\<close>

theorem encode_sequence_first_150_counterexample:
  "150 < length (filter_alphabet (replicate 150 CHR ''A'' @ ''C'')) \<and>
   encode_sequence (replicate 150 CHR ''A'' @ ''C'') 150 \<noteq>
     Inr [encoded (take 150 (filter_alphabet (replicate 150 CHR ''A'' @ ''C'')))]"
proof -
  have "replicate 149 (1::int) @ [2] \<noteq> replicate 150 1"
  proof
    assume "replicate 149 (1::int) @ [2] = replicate 150 1"
    then have "(replicate 149 (1::int) @ [2]) ! 149 = replicate 150 1 ! 149" by simp
    then show False by (simp add: nth_append)
  qed
  then show ?thesis
    by (simp add: encode_sequence_pos filter_alphabet_replicate_A encoded_append
                  encoded_replicate_A encoded_C)
qed

text \<open>
  C4: the encoder drops every character outside the alphabet, and the characters after it
  move to the left: encoding a string is encoding the string without those characters. On
  \<open>AX A\<close> the second \<open>A\<close> is encoded at the second position, not at the fourth.
\<close>

theorem encode_sequence_drops_invalid:
  "encode_sequence s max_len = encode_sequence (filter_alphabet s) max_len \<and>
   encode_sequence ''AX A'' 150 = Inr [1 # 1 # replicate 148 0]"
proof
  show "encode_sequence s max_len = encode_sequence (filter_alphabet s) max_len"
    by (simp add: encode_sequence_def encoded_filter)
  have "encoded ''AX A'' = [1, 1]"
    by (simp add: encoded_Cons encoded_Nil aa_to_int_map amino_acids_def upto_1_20)
  then show "encode_sequence ''AX A'' 150 = Inr [1 # 1 # replicate 148 0]"
    by (simp add: encode_sequence_pos)
qed

text \<open>
  C5: for every string of at most 150 characters, all of the alphabet, the encoded row
  returned for \<open>max_len = 150\<close> has exactly 150 entries; and for every string and every
  positive \<open>max_len\<close> the encoder returns a row of exactly \<open>max_len\<close> entries.
\<close>

theorem encode_sequence_row_length:
  "(length s \<le> 150 \<and> set s \<subseteq> set amino_acids \<longrightarrow>
      (\<exists>row. encode_sequence s 150 = Inr [row] \<and> length row = 150)) \<and>
   (0 < max_len \<longrightarrow>
      (\<exists>row. encode_sequence t max_len = Inr [row] \<and> int (length row) = max_len))"
proof (intro conjI impI)
  show "\<exists>row. encode_sequence s 150 = Inr [row] \<and> length row = 150"
    using length_padded [of "encoded s" 150] by (simp add: encode_sequence_pos)
next
  assume "0 < max_len"
  then show "\<exists>row. encode_sequence t max_len = Inr [row] \<and> int (length row) = max_len"
    using length_padded [of "encoded t" "nat max_len"] by (simp add: encode_sequence_pos)
qed

theorem encode_sequence_row_length_witness:
  "(length ''ACDY'' \<le> 150 \<and> set ''ACDY'' \<subseteq> set amino_acids \<and>
      (\<exists>row. encode_sequence ''ACDY'' 150 = Inr [row] \<and> length row = 150)) \<and>
   ((0::int) < 3 \<and>
      (\<exists>row. encode_sequence ''ACDEFG'' 3 = Inr [row] \<and> int (length row) = 3))"
proof -
  have h: "length ''ACDY'' \<le> 150 \<and> set ''ACDY'' \<subseteq> set amino_acids"
    by (simp add: amino_acids_def)
  have k: "(0::int) < 3" by simp
  from encode_sequence_row_length [of "''ACDY''" 3 "''ACDEFG''"] h k show ?thesis
    by blast
qed

text \<open>
  C7: the alphabet has exactly 20 members, all different; the dictionary is defined on
  exactly these, it maps them in order to 1, ..., 20, so to different integers of
  \<open>[1, 20]\<close>, and no character to 0.
\<close>

theorem alphabet_codes:
  "length amino_acids = 20 \<and> distinct amino_acids \<and>
   dom aa_to_int = set amino_acids \<and>
   map aa_to_int amino_acids = map Some [1..20] \<and>
   distinct (map aa_to_int amino_acids) \<and>
   ran aa_to_int = {1..20} \<and> 0 \<notin> ran aa_to_int"
proof -
  have m: "map aa_to_int amino_acids = map Some [1..20]"
    by (simp add: aa_to_int_map amino_acids_def upto_1_20)
  have r: "ran aa_to_int = {1..20}"
    unfolding aa_to_int_map
    by (subst ran_map_of_zip) (simp_all add: amino_acids_def)
  have d: "distinct (map aa_to_int amino_acids)"
    unfolding m by (simp add: distinct_map)
  show ?thesis
    using m r d by (simp add: aa_to_int_dom) (simp add: amino_acids_def)
qed

text \<open>
  C8: for every string and every positive \<open>max_len\<close> the encoder returns a row of
  \<open>max_len\<close> integers, each in \<open>[0, 20]\<close>, and an entry is 0 exactly at the positions
  after the codes, the padding.
\<close>

theorem encode_sequence_entries:
  "0 < max_len \<Longrightarrow>
   \<exists>row. encode_sequence s max_len = Inr [row] \<and> int (length row) = max_len \<and>
         (\<forall>x \<in> set row. 0 \<le> x \<and> x \<le> int (length amino_acids)) \<and>
         (\<forall>i < length row. row ! i = 0 \<longleftrightarrow> length (encoded s) \<le> i)"
proof -
  assume pos: "0 < max_len"
  define row where
    "row = drop (length (encoded s) - nat max_len) (encoded s)
           @ replicate (nat max_len - length (encoded s)) (0::int)"
  have len: "int (length row) = max_len"
    using pos length_padded [of "encoded s" "nat max_len"] unfolding row_def by simp
  have rng: "0 \<le> x \<and> x \<le> int (length amino_acids)" if "x \<in> set row" for x
  proof -
    from that have "x \<in> set (encoded s) \<or> x = 0"
      unfolding row_def by (auto dest: in_set_dropD)
    then show ?thesis
      using encoded_range [of x s] by (auto simp: amino_acids_def)
  qed
  have zero: "row ! i = 0 \<longleftrightarrow> length (encoded s) \<le> i" if "i < length row" for i
  proof (cases "length (encoded s) \<le> nat max_len")
    case True
    then have r: "row = encoded s @ replicate (nat max_len - length (encoded s)) 0"
      unfolding row_def by simp
    show ?thesis
    proof (cases "i < length (encoded s)")
      case True
      then have "row ! i \<in> set (encoded s)" unfolding r by (simp add: nth_append)
      with encoded_range [of "row ! i" s] True show ?thesis by auto
    next
      case False
      with that show ?thesis unfolding r by (simp add: nth_append)
    qed
  next
    case False
    then have r: "row = drop (length (encoded s) - nat max_len) (encoded s)"
      unfolding row_def by simp
    from that False have i: "i < nat max_len" unfolding r by simp
    from that have "row ! i \<in> set row" by simp
    then have "row ! i \<in> set (encoded s)" unfolding r by (rule in_set_dropD)
    with encoded_range [of "row ! i" s] False i show ?thesis by auto
  qed
  from pos have "encode_sequence s max_len = Inr [row]"
    unfolding row_def by (rule encode_sequence_pos)
  with len rng zero show ?thesis by blast
qed

theorem encode_sequence_entries_witness:
  "(0::int) < 5 \<and>
   (\<exists>row. encode_sequence ''AXC'' 5 = Inr [row] \<and> int (length row) = 5 \<and>
         (\<forall>x \<in> set row. 0 \<le> x \<and> x \<le> int (length amino_acids)) \<and>
         (\<forall>i < length row. row ! i = 0 \<longleftrightarrow> length (encoded ''AXC'') \<le> i))"
proof -
  have h: "(0::int) < 5" by simp
  from encode_sequence_entries [OF h, of "''AXC''"] h show ?thesis by blast
qed

text \<open>
  C9: the encoding of the empty string, for \<open>max_len = 150\<close>, is one row of 150 zeros.
\<close>

theorem encode_sequence_empty: "encode_sequence [] 150 = Inr [replicate 150 0]"
  by (simp add: encode_sequence_pos encoded_Nil)

text \<open>
  C10: for every string and every positive \<open>max_len\<close>, what the encoder returns is a list
  of rows of shape \<open>(1, max_len)\<close>: its own length is 1, and its only row has
  \<open>max_len\<close> entries.
\<close>

theorem encode_sequence_shape:
  "0 < max_len \<Longrightarrow>
   \<exists>rows. encode_sequence s max_len = Inr rows \<and> length rows = 1 \<and>
          map length rows = [nat max_len]"
proof -
  assume pos: "0 < max_len"
  with length_padded [of "encoded s" "nat max_len"] show ?thesis
    by (simp add: encode_sequence_pos)
qed

theorem encode_sequence_shape_witness:
  "(0::int) < 150 \<and>
   (\<exists>rows. encode_sequence ''ACDEFGHIKLMNPQRSTVWY'' 150 = Inr rows \<and> length rows = 1 \<and>
          map length rows = [nat 150])"
proof -
  have h: "(0::int) < 150" by simp
  from encode_sequence_shape [OF h, of "''ACDEFGHIKLMNPQRSTVWY''"] h show ?thesis by blast
qed

section \<open>Properties of the layer graph and of the page\<close>

lemma build_complex_model_error:
  "build_complex_model n = Inl (ValueError ''global_average_pooling1d: expected ndim=3'')"
  by (simp add: build_complex_model_def and_then_def Input_def Embedding_def Dropout_def
                Conv1D_def BatchNormalization_def LSTM_def Attention_def concatenate_def
                GlobalAveragePooling1D_def)

lemma list_all_alphabet: "list_all (\<lambda>aa. aa \<in> set amino_acids) s \<longleftrightarrow> set s \<subseteq> set amino_acids"
  by (auto simp: list_all_iff)

lemma prediction_branch_events: "list_all in_prediction_branch (prediction_branch s)"
  by (simp add: prediction_branch_def encode_sequence_pos build_complex_model_error)

lemma prediction_branch_nonempty: "prediction_branch s \<noteq> []"
  by (simp add: prediction_branch_def encode_sequence_pos)

lemma run_app_invalid:
  "\<not> set s \<subseteq> set amino_acids \<Longrightarrow> \<not> list_ex in_prediction_branch (run_app s button)"
  by (simp add: run_app_def list_all_alphabet)

lemma run_app_valid:
  "set s \<subseteq> set amino_acids \<Longrightarrow> list_ex in_prediction_branch (run_app s True)"
proof -
  assume "set s \<subseteq> set amino_acids"
  then have "run_app s True =
      (if 150 < length s
       then [Error_shown ''Sequence too long. Please enter up to 150 characters.'']
       else []) @ prediction_branch s"
    by (simp add: run_app_def list_all_alphabet)
  moreover have "list_ex in_prediction_branch (prediction_branch s)"
    using prediction_branch_events [of s] prediction_branch_nonempty [of s]
    by (cases "prediction_branch s") simp_all
  ultimately show ?thesis by simp
qed

text \<open>
  C1, on a sequence the validation should reject: for 151 times \<open>A\<close> and the button
  pressed, the page shows the message that the sequence is too long and then runs the
  prediction branch all the same, encoding the sequence (cut to 150 codes) for the model.
\<close>

theorem run_app_too_long_enters_prediction:
  "take 2 (run_app (replicate 151 CHR ''A'') True) =
     [Error_shown ''Sequence too long. Please enter up to 150 characters.'',
      Encoded_input [replicate 150 1]] \<and>
   list_ex in_prediction_branch (run_app (replicate 151 CHR ''A'') True)"
proof -
  have v: "set (replicate 151 CHR ''A'') \<subseteq> set amino_acids"
    by (simp add: amino_acids_def)
  have "run_app (replicate 151 CHR ''A'') True =
      Error_shown ''Sequence too long. Please enter up to 150 characters.''
      # prediction_branch (replicate 151 CHR ''A'')"
    using v by (simp add: run_app_def list_all_alphabet)
  moreover have "prediction_branch (replicate 151 CHR ''A'') =
      [Encoded_input [replicate 150 1],
       Uncaught (ValueError ''global_average_pooling1d: expected ndim=3'')]"
    by (simp add: prediction_branch_def encode_sequence_pos encoded_replicate_A
                  build_complex_model_error)
  ultimately show ?thesis by simp
qed

text \<open>
  C3, on the page's own default input: \<open>build_complex_model\<close> raises for every input
  length, because the second \<open>LSTM\<close> returns a tensor of rank 2 and the pooling layer
  after it accepts rank 3 only; the run ends there, before \<open>predict\<close> is called, and no
  prediction is returned.
\<close>

theorem build_complex_model_raises:
  "build_complex_model input_length =
     Inl (ValueError ''global_average_pooling1d: expected ndim=3'') \<and>
   run_app ''ACDEFGHIKLMNPQRSTVWY'' True =
     [Encoded_input [[1, 2, 3, 4, 5, 6, 7, 8, 9, 10, 11, 12, 13, 14, 15, 16, 17, 18, 19, 20]
                     @ replicate 130 0],
      Uncaught (ValueError ''global_average_pooling1d: expected ndim=3'')]"
proof -
  have e: "encoded ''ACDEFGHIKLMNPQRSTVWY'' =
           [1, 2, 3, 4, 5, 6, 7, 8, 9, 10, 11, 12, 13, 14, 15, 16, 17, 18, 19, 20]"
    by (simp add: encoded_Cons encoded_Nil aa_to_int_map amino_acids_def upto_1_20)
  have "list_all (\<lambda>aa. aa \<in> set amino_acids) ''ACDEFGHIKLMNPQRSTVWY''"
    by (simp add: amino_acids_def)
  then show ?thesis
    by (simp add: run_app_def prediction_branch_def encode_sequence_pos e
                  build_complex_model_error)
qed

section \<open>Properties of the structure record formatter\<close>

lemma digit_char_not_newline: "d < 10 \<Longrightarrow> digit_char d \<noteq> newline"
proof -
  assume "d < 10"
  then have "digit_char d \<in> set ''0123456789''"
    unfolding digit_char_def by (intro nth_mem) simp
  then show ?thesis by (auto simp: newline_def)
qed

lemma digits_no_newline: "newline \<notin> set (digits n)"
proof (induction n rule: digits.induct)
  case (1 n)
  show ?case
  proof (cases "n < 10")
    case True
    then show ?thesis
      using digit_char_not_newline [of n] by (subst digits.simps) auto
  next
    case False
    with 1 have "newline \<notin> set (digits (n div 10))" by simp
    moreover have "digit_char (n mod 10) \<noteq> newline"
      by (rule digit_char_not_newline) simp
    ultimately show ?thesis
      using False by (subst digits.simps) auto
  qed
qed

lemma digits_length: "0 < k \<Longrightarrow> n < 10 ^ k \<Longrightarrow> length (digits n) \<le> k"
proof (induction n arbitrary: k rule: digits.induct)
  case (1 n)
  show ?case
  proof (cases "n < 10")
    case True
    with 1 show ?thesis by (subst digits.simps) simp
  next
    case False
    with "1.prems" obtain j where k: "k = Suc j"
      by (cases k) auto
    from False "1.prems" k have "0 < j"
      by (cases j) auto
    moreover from "1.prems" k have "n div 10 < 10 ^ j"
      by (simp add: less_mult_imp_div_less mult.commute)
    ultimately have "length (digits (n div 10)) \<le> j"
      using False "1.IH" by simp
    with False k show ?thesis by (subst digits.simps) simp
  qed
qed

lemma rjust_length: "length (rjust w s) = max w (length s)"
  by (simp add: rjust_def max_def)

lemma rjust_no_newline: "newline \<notin> set s \<Longrightarrow> newline \<notin> set (rjust w s)"
  by (auto simp: rjust_def newline_def)

lemma format_d_no_newline: "newline \<notin> set (format_d w n)"
  unfolding format_d_def
  by (rule rjust_no_newline) (simp add: digits_no_newline, simp add: newline_def)

lemma format_f3_no_newline: "newline \<notin> set (format_f3 w x)"
proof -
  have d: "digit_char (m mod 10) \<noteq> newline" for m
    by (rule digit_char_not_newline) simp
  have "CHR ''-'' \<noteq> newline" "CHR ''.'' \<noteq> newline"
    by (simp_all add: newline_def)
  then show ?thesis
    unfolding format_f3_def Let_def
    using d [of "nat (round_half_even (\<bar>x\<bar> * 1000)) div 100"]
          d [of "nat (round_half_even (\<bar>x\<bar> * 1000)) div 10"]
          d [of "nat (round_half_even (\<bar>x\<bar> * 1000))"]
    by (intro rjust_no_newline) (auto simp: digits_no_newline)
qed

lemma format_d_length:
  "0 \<le> n \<Longrightarrow> n < 10 ^ w \<Longrightarrow> 0 < w \<Longrightarrow> length (format_d w n) = w"
proof -
  assume n: "0 \<le> n" "n < 10 ^ w" and w: "0 < w"
  from n have "nat n < 10 ^ w"
    by (simp add: nat_less_iff)
  with w have "length (digits (nat n)) \<le> w" by (rule digits_length)
  with n show ?thesis
    by (simp add: format_d_def rjust_length max_def)
qed

lemma atom_record_no_newline: "newline \<notin> set (atom_record i p)"
  by (cases p)
     (simp add: atom_record_def newline_def format_d_no_newline [unfolded newline_def]
                format_f3_no_newline [unfolded newline_def])

lemma fold_append_records:
  "fold (\<lambda>(i, p) acc. acc @ f i p) xs acc = acc @ concat (map (\<lambda>(i, p). f i p) xs)"
  by (induction xs arbitrary: acc) auto

lemma text_lines_line:
  "newline \<notin> set l \<Longrightarrow> text_lines (l @ newline # rest) = l # text_lines rest"
  by (induction l) auto

lemma text_lines_records:
  "text_lines (concat (map (\<lambda>(i, q). atom_record i q @ [newline]) xs) @ rest) =
   map (\<lambda>(i, q). atom_record i q) xs @ text_lines rest"
proof (induction xs)
  case Nil
  then show ?case by simp
next
  case (Cons iq xs)
  obtain i q where iq: "iq = (i, q)" by (cases iq)
  have "text_lines (atom_record i q @ newline #
          (concat (map (\<lambda>(i, q). atom_record i q @ [newline]) xs) @ rest)) =
        atom_record i q #
          text_lines (concat (map (\<lambda>(i, q). atom_record i q @ [newline]) xs) @ rest)"
    by (rule text_lines_line) (rule atom_record_no_newline)
  with Cons iq show ?case by simp
qed

lemma text_lines_pdb_data:
  "text_lines (pdb_data p) =
   ''MODEL'' # map (\<lambda>(i, q). atom_record i q) (enumerate 0 p) @ [''ENDMDL'']"
proof -
  have m: "newline \<notin> set ''MODEL''" and e: "newline \<notin> set ''ENDMDL''"
    by (simp_all add: newline_def)
  have "text_lines (''ENDMDL'' @ newline # []) = [''ENDMDL'']"
    using text_lines_line [OF e, of "[]"] by simp
  then have "text_lines (concat (map (\<lambda>(i, q). atom_record i q @ [newline]) (enumerate 0 p))
               @ ''ENDMDL'' @ [newline]) =
             map (\<lambda>(i, q). atom_record i q) (enumerate 0 p) @ [''ENDMDL'']"
    by (simp only: text_lines_records)
  moreover have "pdb_data p =
      ''MODEL'' @ newline #
        (concat (map (\<lambda>(i, q). atom_record i q @ [newline]) (enumerate 0 p))
         @ ''ENDMDL'' @ [newline])"
    by (simp add: pdb_data_def fold_append_records)
  ultimately show ?thesis
    by (simp only: text_lines_line [OF m])
qed

lemma records_nth:
  "i < length p \<Longrightarrow>
   map (\<lambda>(i, q). atom_record i q) (enumerate 0 p) ! i = atom_record i (p ! i)"
  by (simp add: nth_enumerate_eq)

lemma layout_columns:
  assumes "length a = 5" "length b = 4" "length x = 8" "length y = 8" "length z = 8"
    and "l = ''ATOM  '' @ a @ ''  CA  ALA A'' @ b @ ''    '' @ x @ y @ z @
             ''  1.00  0.00           C''"
  shows "length l = 78 \<and> take 6 l = ''ATOM  '' \<and> take 5 (drop 6 l) = a \<and>
         take 4 (drop 12 l) = '' CA '' \<and> take 3 (drop 17 l) = ''ALA'' \<and>
         take 1 (drop 21 l) = ''A'' \<and> take 4 (drop 22 l) = b \<and>
         take 8 (drop 30 l) = x \<and> take 8 (drop 38 l) = y \<and> take 8 (drop 46 l) = z \<and>
         take 6 (drop 54 l) = ''  1.00'' \<and> take 6 (drop 60 l) = ''  0.00'' \<and>
         drop 66 l = ''           C''"
  using assms by simp

lemma atom_record_layout:
  assumes "i < 9999" and "point_fits p"
  shows "has_layout (atom_record i p) i p"
proof -
  obtain x y z where p: "p = (x, y, z)" by (cases p)
  from assms(1) have a: "length (format_d 5 (int i + 1)) = 5"
    by (intro format_d_length) simp_all
  from assms(1) have b: "length (format_d 4 (int i + 1)) = 4"
    by (intro format_d_length) simp_all
  from assms(2) p have c: "length (format_f3 8 x) = 8" "length (format_f3 8 y) = 8"
      "length (format_f3 8 z) = 8"
    by (simp_all add: fits_field_def)
  have "atom_record i p =
        ''ATOM  '' @ format_d 5 (int i + 1) @ ''  CA  ALA A'' @ format_d 4 (int i + 1) @
        ''    '' @ format_f3 8 x @ format_f3 8 y @ format_f3 8 z @
        ''  1.00  0.00           C''"
    by (simp add: atom_record_def p)
  from layout_columns [OF a b c this] show ?thesis
    by (simp only: has_layout_def p prod.case)
qed

lemma fits_field_zero: "fits_field 0"
  by (simp add: fits_field_def format_f3_def round_half_even_def rjust_def digits.simps)

lemma length_format_d_5: "length (format_d 5 10000) = 5"
  by (simp add: format_d_def rjust_def digits.simps)

lemma length_format_d_4: "length (format_d 4 10000) = 5"
  by (simp add: format_d_def rjust_def digits.simps)

lemma length_atom_record_first: "length (atom_record 0 (0, 0, 0)) = 78"
  using fits_field_zero
  by (simp add: atom_record_def fits_field_def format_d_def rjust_def digits.simps)

lemma length_atom_record_10000: "length (atom_record 9999 (0, 0, 0)) = 79"
  using fits_field_zero length_format_d_5 length_format_d_4
  by (simp add: atom_record_def fits_field_def)

lemma floor_rat_numeral: "\<lfloor>numeral a / numeral b :: rat\<rfloor> = numeral a div numeral b"
  using floor_divide_of_int_eq [of "numeral a" "numeral b", where ?'a = rat] by simp

lemma fits_field_examples:
  "fits_field (3 / 2)" "fits_field (- 33 / 16)" "fits_field 10" "fits_field 20" "fits_field 30"
  by (simp_all add: fits_field_def format_f3_def round_half_even_def Let_def floor_rat_numeral
                    rjust_def digits.simps)

text \<open>
  C6, as the code has it: for every sequence of at most 9999 points whose coordinates fit
  their fields, the text has, between the line \<open>MODEL\<close> and the line \<open>ENDMDL\<close>, exactly
  one line per point, each of 78 characters and each with the columns of the layout.
\<close>

theorem pdb_data_fixed_width_lines:
  assumes "length prediction \<le> 9999" and "list_all point_fits prediction"
  shows "\<exists>body. text_lines (pdb_data prediction) = ''MODEL'' # body @ [''ENDMDL''] \<and>
           length body = length prediction \<and>
           list_all (\<lambda>l. length l = 78) body \<and>
           (\<forall>i < length prediction. has_layout (body ! i) i (prediction ! i))"
proof -
  define body where "body = map (\<lambda>(i, q). atom_record i q) (enumerate 0 prediction)"
  have len: "length body = length prediction"
    by (simp add: body_def)
  have lay: "has_layout (body ! i) i (prediction ! i)" if "i < length prediction" for i
  proof -
    from that assms(1) have "i < 9999" by simp
    moreover from that assms(2) have "point_fits (prediction ! i)"
      by (simp add: list_all_length)
    ultimately have "has_layout (atom_record i (prediction ! i)) i (prediction ! i)"
      by (rule atom_record_layout)
    with that show ?thesis
      by (simp only: body_def records_nth)
  qed
  have "length (body ! i) = 78" if "i < length body" for i
  proof -
    from that len have "has_layout (body ! i) i (prediction ! i)" by (simp add: lay)
    then show ?thesis
      by (cases "prediction ! i") (simp add: has_layout_def)
  qed
  then have wid: "list_all (\<lambda>l. length l = 78) body"
    by (simp add: list_all_length)
  have "text_lines (pdb_data prediction) = ''MODEL'' # body @ [''ENDMDL'']"
    unfolding body_def by (rule text_lines_pdb_data)
  with len wid lay show ?thesis by blast
qed

theorem pdb_data_fixed_width_lines_witness:
  "length ([(3 / 2, - 33 / 16, 0), (10, 20, 30)] :: (rat \<times> rat \<times> rat) list) \<le> 9999 \<and>
   list_all point_fits [(3 / 2, - 33 / 16, 0), (10, 20, 30)] \<and>
   (\<exists>body. text_lines (pdb_data [(3 / 2, - 33 / 16, 0), (10, 20, 30)]) =
            ''MODEL'' # body @ [''ENDMDL''] \<and>
          length body = length ([(3 / 2, - 33 / 16, 0), (10, 20, 30)] :: (rat \<times> rat \<times> rat) list) \<and>
          list_all (\<lambda>l. length l = 78) body \<and>
          (\<forall>i < length ([(3 / 2, - 33 / 16, 0), (10, 20, 30)] :: (rat \<times> rat \<times> rat) list).
             has_layout (body ! i) i ([(3 / 2, - 33 / 16, 0), (10, 20, 30)] ! i)))"
proof -
  have h: "length ([(3 / 2, - 33 / 16, 0), (10, 20, 30)] :: (rat \<times> rat \<times> rat) list) \<le> 9999"
    by simp
  have k: "list_all point_fits [(3 / 2, - 33 / 16, 0), (10, 20, 30)]"
    using fits_field_zero fits_field_examples by simp
  show ?thesis
    by (rule conjI [OF h conjI [OF k pdb_data_fixed_width_lines [OF h k]]])
qed

text \<open>
  C6, as the specification states it, fails on a sequence of 10000 points, whose
  coordinates all fit: the residue number of the last point has five digits in a field of
  four, and the line of that point is one character wider than the line of the first.
\<close>

theorem pdb_data_fixed_width_counterexample:
  "list_all point_fits (replicate 10000 (0, 0, 0)) \<and>
   length (text_lines (pdb_data (replicate 10000 (0, 0, 0))) ! 1) = 78 \<and>
   length (text_lines (pdb_data (replicate 10000 (0, 0, 0))) ! 10000) = 79"
proof -
  have f: "list_all point_fits (replicate 10000 (0, 0, 0))"
    by (simp add: list_all_iff fits_field_zero)
  have n: "map (\<lambda>(i, q). atom_record i q) (enumerate 0 (replicate 10000 (0, 0, 0))) ! i =
           atom_record i (0, 0, 0)" if "i < 10000" for i
    using that records_nth [of i "replicate 10000 (0, 0, 0)"] by simp
  have "text_lines (pdb_data (replicate 10000 (0, 0, 0))) ! 1 = atom_record 0 (0, 0, 0)"
    using n [of 0] by (simp add: text_lines_pdb_data nth_append)
  moreover
  have "text_lines (pdb_data (replicate 10000 (0, 0, 0))) ! 10000 = atom_record 9999 (0, 0, 0)"
    using n [of 9999] by (simp add: text_lines_pdb_data nth_append)
  ultimately show ?thesis
    using f by (simp only: length_atom_record_first length_atom_record_10000)
qed

end
